theory Spec2Isabelle
  imports Main "HOL-Library.Word"
begin

section \<open>The free store\<close>

text \<open>
  The class \<open>palo::DynamicBuffer\<close> of \<open>be/src/rpc/dynamic_buffer.h\<close> works on raw
  \<open>uint8_t*\<close> pointers obtained from \<open>new uint8_t[n]\<close>.  A pointer is either null
  or a block identifier with a byte offset; the offset is a 64-bit machine word, so
  pointer arithmetic wraps the way the hardware does.  \<open>size_t\<close> is the 64-bit
  unsigned type of an LP64 target, \<open>uint32_t\<close> the 32-bit one.
\<close>

type_synonym byte = "8 word"
type_synonym size_t = "64 word"
type_synonym uint32_t = "32 word"

datatype pointer = Null | Ptr nat size_t

text \<open>
  What can go wrong: \<open>new\<close> throws \<open>std::bad_alloc\<close>, or the program leaves the
  defined behaviour of C++ (a copy outside a live block, a subtraction of unrelated
  pointers, \<open>delete []\<close> of something that \<open>new []\<close> did not return).
\<close>

datatype fault = Undefined_Behaviour | Bad_Alloc

type_synonym 'a result = "fault + 'a"

definition bind_res :: "'a result \<Rightarrow> ('a \<Rightarrow> 'b result) \<Rightarrow> 'b result" where
  "bind_res m f = (case m of Inl e \<Rightarrow> Inl e | Inr x \<Rightarrow> f x)"

text \<open>
  A block records the number of bytes that were requested, whether it is still
  allocated, and its bytes; a byte that was never written is indeterminate (\<open>None\<close>).
\<close>

record block =
  bsize :: nat
  live :: bool
  cells :: "nat \<rightharpoonup> byte"

text \<open>
  The store hands out fresh block identifiers in increasing order.  A request larger
  than \<open>max_alloc\<close> fails with \<open>std::bad_alloc\<close>.
\<close>

record heap =
  blocks :: "nat \<rightharpoonup> block"
  next_id :: nat
  max_alloc :: nat

text \<open>\<open>new uint8_t[n]\<close>\<close>

definition new_arr :: "size_t \<Rightarrow> heap \<Rightarrow> (pointer \<times> heap) result" where
  "new_arr n h =
     (if unat n \<le> max_alloc h
      then Inr (Ptr (next_id h) 0,
                h\<lparr>blocks := (blocks h)(next_id h \<mapsto>
                       \<lparr>bsize = unat n, live = True, cells = Map.empty\<rparr>),
                  next_id := Suc (next_id h)\<rparr>)
      else Inl Bad_Alloc)"

text \<open>\<open>delete [] p\<close>: nothing for a null pointer; otherwise \<open>p\<close> must be the start of
  a block that is still allocated.\<close>

definition delete_arr :: "pointer \<Rightarrow> heap \<Rightarrow> heap result" where
  "delete_arr p h =
     (case p of
        Null \<Rightarrow> Inr h
      | Ptr b off \<Rightarrow>
          (case blocks h b of
             None \<Rightarrow> Inl Undefined_Behaviour
           | Some blk \<Rightarrow>
               if live blk \<and> off = 0
               then Inr (h\<lparr>blocks := (blocks h)(b \<mapsto> blk\<lparr>live := False\<rparr>)\<rparr>)
               else Inl Undefined_Behaviour))"

text \<open>\<open>p - q\<close> on pointers, as the bits of the \<open>ptrdiff_t\<close> result.\<close>

fun ptr_diff :: "pointer \<Rightarrow> pointer \<Rightarrow> size_t result" where
  "ptr_diff Null Null = Inr 0"
| "ptr_diff (Ptr b i) (Ptr c j) = (if b = c then Inr (i - j) else Inl Undefined_Behaviour)"
| "ptr_diff Null (Ptr c j) = Inl Undefined_Behaviour"
| "ptr_diff (Ptr b i) Null = Inl Undefined_Behaviour"

text \<open>\<open>p + n\<close> on a pointer.  Forming a pointer is not checked against the bounds of
  its block; the accesses through it (\<open>memcpy\<close>, \<open>delete []\<close>) are.\<close>

fun ptr_add :: "pointer \<Rightarrow> size_t \<Rightarrow> pointer result" where
  "ptr_add Null n = (if n = 0 then Inr Null else Inl Undefined_Behaviour)"
| "ptr_add (Ptr b i) n = Inr (Ptr b (i + n))"

text \<open>
  \<open>memcpy(dst, src, n)\<close>.  A copy of zero bytes does nothing.  Otherwise both ranges
  must lie inside live blocks and must not overlap.
\<close>

definition memcpy :: "pointer \<Rightarrow> pointer \<Rightarrow> size_t \<Rightarrow> heap \<Rightarrow> heap result" where
  "memcpy dst src n h =
     (if n = 0 then Inr h
      else
        (case dst of
           Null \<Rightarrow> Inl Undefined_Behaviour
         | Ptr bd od \<Rightarrow>
             (case src of
                Null \<Rightarrow> Inl Undefined_Behaviour
              | Ptr bs os \<Rightarrow>
                  (case blocks h bd of
                     None \<Rightarrow> Inl Undefined_Behaviour
                   | Some d \<Rightarrow>
                       (case blocks h bs of
                          None \<Rightarrow> Inl Undefined_Behaviour
                        | Some s \<Rightarrow>
                            if live d \<and> live s
                               \<and> unat od + unat n \<le> bsize d
                               \<and> unat os + unat n \<le> bsize s
                               \<and> (if bd = bs
                                  then unat od + unat n \<le> unat os \<or> unat os + unat n \<le> unat od
                                  else True)
                            then Inr (h\<lparr>blocks := (blocks h)(bd \<mapsto>
                                   d\<lparr>cells := (\<lambda>i. if unat od \<le> i \<and> i < unat od + unat n
                                                     then cells s (i - unat od + unat os)
                                                     else cells d i)\<rparr>)\<rparr>)
                            else Inl Undefined_Behaviour)))))"

text \<open>The \<open>n\<close> bytes at \<open>p\<close>, for reading a region back.\<close>

definition read_bytes :: "pointer \<Rightarrow> nat \<Rightarrow> heap \<Rightarrow> byte option list" where
  "read_bytes p n h =
     (case p of
        Null \<Rightarrow> []
      | Ptr b off \<Rightarrow>
          (case blocks h b of
             None \<Rightarrow> []
           | Some blk \<Rightarrow> map (cells blk) [unat off ..< unat off + n]))"

section \<open>DynamicBuffer\<close>

text \<open>
  The five data members of the class, in the order of their declaration, and the free
  store the object lives in.  The member \<open>size\<close> is a \<open>uint32_t\<close>.
\<close>

record state =
  base :: pointer
  ptr :: pointer
  mark :: pointer
  size_u32 :: uint32_t
  own :: bool
  mem :: heap

text \<open>
  The constructor.  The member initialiser \<open>size(initial_size)\<close> narrows the
  \<open>size_t\<close> argument to 32 bits before the body tests and allocates \<open>size\<close>.
\<close>

definition DynamicBuffer :: "size_t \<Rightarrow> bool \<Rightarrow> heap \<Rightarrow> state result" where
  "DynamicBuffer initial_size own_buffer h =
     (let sz = (ucast initial_size :: uint32_t) in
      if sz \<noteq> 0
      then bind_res (new_arr (ucast sz) h) (\<lambda>(p, h').
             Inr \<lparr>base = p, ptr = p, mark = p, size_u32 = sz, own = own_buffer, mem = h'\<rparr>)
      else Inr \<lparr>base = Null, ptr = Null, mark = Null, size_u32 = sz, own = own_buffer,
                mem = h\<rparr>)"

text \<open>The destructor; what is left is the free store.\<close>

definition destroy :: "state \<Rightarrow> heap result" where
  "destroy s = (if own s then delete_arr (base s) (mem s) else Inr (mem s))"

text \<open>\<open>remaining\<close>: \<open>size - (ptr - base)\<close>, computed in 64 bits after \<open>size\<close> is
  widened, and returned as a \<open>size_t\<close>.\<close>

definition remaining :: "state \<Rightarrow> size_t result" where
  "remaining s = bind_res (ptr_diff (ptr s) (base s)) (\<lambda>d. Inr (ucast (size_u32 s) - d))"

definition fill :: "state \<Rightarrow> size_t result" where
  "fill s = ptr_diff (ptr s) (base s)"

definition empty_buf :: "state \<Rightarrow> bool" where
  "empty_buf s = (ptr s = base s)"

text \<open>\<open>grow(new_size, nocopy)\<close>, statement by statement.\<close>

definition grow :: "size_t \<Rightarrow> bool \<Rightarrow> state \<Rightarrow> state result" where
  "grow new_size nocopy s =
     bind_res (new_arr new_size (mem s)) (\<lambda>(new_buf, h1).
     bind_res (if \<not> nocopy \<and> base s \<noteq> Null
               then bind_res (ptr_diff (ptr s) (base s)) (\<lambda>d. memcpy new_buf (base s) d h1)
               else Inr h1) (\<lambda>h2.
     bind_res (ptr_diff (ptr s) (base s)) (\<lambda>dp.
     bind_res (ptr_add new_buf dp) (\<lambda>ptr'.
     bind_res (ptr_diff (mark s) (base s)) (\<lambda>dm.
     bind_res (ptr_add new_buf dm) (\<lambda>mark'.
     bind_res (if own s then delete_arr (base s) h2 else Inr h2) (\<lambda>h3.
     Inr (s\<lparr>ptr := ptr', mark := mark', base := new_buf, size_u32 := ucast new_size,
            mem := h3\<rparr>))))))))"

definition ensure :: "size_t \<Rightarrow> state \<Rightarrow> state result" where
  "ensure len s =
     bind_res (remaining s) (\<lambda>r.
       if r < len
       then bind_res (fill s) (\<lambda>f. grow ((f + len) * 3 div 2) False s)
       else Inr s)"

definition reserve :: "size_t \<Rightarrow> bool \<Rightarrow> state \<Rightarrow> state result" where
  "reserve len nocopy s =
     bind_res (remaining s) (\<lambda>r.
       if r < len
       then bind_res (fill s) (\<lambda>f. grow (f + len) nocopy s)
       else Inr s)"

text \<open>\<open>add_unchecked\<close> returns the pointer to the added data and the new state.\<close>

definition add_unchecked :: "pointer \<Rightarrow> size_t \<Rightarrow> state \<Rightarrow> (pointer \<times> state) result" where
  "add_unchecked data len s =
     (if data = Null then Inr (Null, s)
      else
        bind_res (memcpy (ptr s) data len (mem s)) (\<lambda>h.
        bind_res (ptr_add (ptr s) len) (\<lambda>p.
        Inr (ptr s, s\<lparr>ptr := p, mem := h\<rparr>))))"

definition add :: "pointer \<Rightarrow> size_t \<Rightarrow> state \<Rightarrow> (pointer \<times> state) result" where
  "add data len s = bind_res (ensure len s) (add_unchecked data len)"

definition clear :: "state \<Rightarrow> state" where
  "clear s = s\<lparr>ptr := base s\<rparr>"

text \<open>\<open>set\<close>: \<open>clear(); reserve(len); add_unchecked(data, len);\<close>\<close>

definition set_buf :: "pointer \<Rightarrow> size_t \<Rightarrow> state \<Rightarrow> state result" where
  "set_buf data len s =
     bind_res (reserve len False (clear s)) (\<lambda>s1.
     bind_res (add_unchecked data len s1) (\<lambda>(r, s2). Inr s2))"

definition set_mark :: "state \<Rightarrow> state" where
  "set_mark s = s\<lparr>mark := ptr s\<rparr>"

definition free :: "state \<Rightarrow> state result" where
  "free s =
     bind_res (if own s then delete_arr (base s) (mem s) else Inr (mem s)) (\<lambda>h.
     Inr (s\<lparr>base := Null, ptr := Null, mark := Null, size_u32 := 0, mem := h\<rparr>))"

text \<open>
  \<open>release(lenp)\<close>: the flag says whether \<open>lenp\<close> is non-null; the value stored
  through it is the second component of the result.
\<close>

definition release :: "bool \<Rightarrow> state \<Rightarrow> (pointer \<times> size_t option \<times> state) result" where
  "release lenp s =
     bind_res (if lenp then bind_res (fill s) (\<lambda>f. Inr (Some f)) else Inr None) (\<lambda>stored.
     Inr (base s, stored, s\<lparr>ptr := Null, base := Null, mark := Null, size_u32 := 0\<rparr>))"

section \<open>The invariant of the data model\<close>

fun block_of :: "pointer \<Rightarrow> nat option" where
  "block_of Null = None"
| "block_of (Ptr b i) = Some b"

text \<open>
  \<open>base \<le> ptr \<le> base + size\<close>: either nothing is allocated and all three pointers
  are null with \<open>size = 0\<close>, or \<open>base\<close> is the start of a live block of at least
  \<open>size\<close> bytes that was handed out earlier, \<open>ptr\<close> lies at most \<open>size\<close> bytes
  into it and \<open>mark\<close> points into the same block.
\<close>

definition wf :: "state \<Rightarrow> bool" where
  "wf s =
     (case base s of
        Null \<Rightarrow> ptr s = Null \<and> mark s = Null \<and> size_u32 s = 0
      | Ptr b off \<Rightarrow>
          off = 0 \<and> b < next_id (mem s)
          \<and> (case ptr s of Null \<Rightarrow> False | Ptr c i \<Rightarrow> c = b \<and> i \<le> ucast (size_u32 s))
          \<and> (case mark s of Null \<Rightarrow> False | Ptr c j \<Rightarrow> c = b)
          \<and> (case blocks (mem s) b of
                None \<Rightarrow> False
              | Some blk \<Rightarrow> live blk \<and> unat (size_u32 s) \<le> bsize blk))"

section \<open>Sequences of appends\<close>

text \<open>A run of calls \<open>add(data, len)\<close>, each given as the pair of its arguments.\<close>

fun adds :: "(pointer \<times> size_t) list \<Rightarrow> state \<Rightarrow> state result" where
  "adds [] s = Inr s"
| "adds (x # xs) s = bind_res (add (fst x) (snd x) s) (\<lambda>rs. adds xs (snd rs))"

text \<open>
  A source array is usable for an append into the buffer whose region is \<open>buf\<close> when
  it is non-null, lies inside a live block handed out earlier, and that block is not the
  buffer's own region.
\<close>

definition src_ok :: "heap \<Rightarrow> nat option \<Rightarrow> pointer \<times> size_t \<Rightarrow> bool" where
  "src_ok h buf x =
     (case fst x of
        Null \<Rightarrow> False
      | Ptr b off \<Rightarrow>
          b < next_id h \<and> buf \<noteq> Some b
          \<and> (case blocks h b of
                None \<Rightarrow> False
              | Some blk \<Rightarrow> live blk \<and> unat off + unat (snd x) \<le> bsize blk))"

section \<open>Concrete stores for the examples\<close>

text \<open>An empty store, and one that already holds an eight-byte array \<open>0, 1, \<dots>, 7\<close>
  as block 0.\<close>

definition heap0 :: heap where
  "heap0 = \<lparr>blocks = Map.empty, next_id = 0, max_alloc = 2 ^ 40\<rparr>"

definition heap_data :: heap where
  "heap_data =
     \<lparr>blocks = [0 \<mapsto> \<lparr>bsize = 8, live = True, cells = (\<lambda>i. Some (of_nat i))\<rparr>],
      next_id = 1, max_alloc = 2 ^ 40\<rparr>"

text \<open>What \<open>DynamicBuffer(0, true)\<close> builds in the empty store.\<close>

definition fresh_buf :: state where
  "fresh_buf =
     \<lparr>base = Null, ptr = Null, mark = Null, size_u32 = 0, own = True, mem = heap0\<rparr>"

text \<open>
  A buffer in a store that holds the eight-byte array as block 0: the buffer's region is
  block 1, six bytes long and full, with the bookmark after the fourth byte.
\<close>

definition marked_buf :: state where
  "marked_buf =
     \<lparr>base = Ptr 1 0, ptr = Ptr 1 6, mark = Ptr 1 4, size_u32 = 6, own = True,
      mem = \<lparr>blocks = [0 \<mapsto> \<lparr>bsize = 8, live = True, cells = (\<lambda>i. Some (of_nat i))\<rparr>,
                        1 \<mapsto> \<lparr>bsize = 6, live = True, cells = (\<lambda>i. Some (of_nat i))\<rparr>],
             next_id = 2, max_alloc = 2 ^ 40\<rparr>\<rparr>"

text \<open>An empty buffer in the store that holds the eight-byte array.\<close>

definition fresh_data_buf :: state where
  "fresh_data_buf =
     \<lparr>base = Null, ptr = Null, mark = Null, size_u32 = 0, own = True, mem = heap_data\<rparr>"

text \<open>An empty buffer in a store that holds an array of 3000000000 zero bytes.\<close>

definition huge_buf :: state where
  "huge_buf =
     \<lparr>base = Null, ptr = Null, mark = Null, size_u32 = 0, own = True,
      mem = \<lparr>blocks = [0 \<mapsto> \<lparr>bsize = 3000000000, live = True, cells = (\<lambda>i. Some 0)\<rparr>],
             next_id = 1, max_alloc = 2 ^ 40\<rparr>\<rparr>"

section \<open>Basic facts\<close>

lemma bind_res_Inr_iff: "bind_res m f = Inr y \<longleftrightarrow> (\<exists>x. m = Inr x \<and> f x = Inr y)"
  by (cases m) (simp_all add: bind_res_def)

lemma bind_res_Inr [simp]: "bind_res (Inr x) f = f x"
  by (simp add: bind_res_def)

lemma bind_res_Inl [simp]: "bind_res (Inl e) f = Inl e"
  by (simp add: bind_res_def)

lemma fresh_buf_built: "DynamicBuffer 0 True heap0 = Inr fresh_buf"
  by (simp add: DynamicBuffer_def fresh_buf_def)

lemmas ops_defs = new_arr_def delete_arr_def memcpy_def DynamicBuffer_def
  destroy_def remaining_def fill_def grow_def ensure_def reserve_def add_unchecked_def
  add_def clear_def set_buf_def set_mark_def free_def release_def empty_buf_def Let_def

lemma new_arr_Inr:
  "new_arr n h = Inr (p, h') \<longleftrightarrow>
     unat n \<le> max_alloc h \<and> p = Ptr (next_id h) 0 \<and>
     h' = h\<lparr>blocks := (blocks h)(next_id h \<mapsto>
               \<lparr>bsize = unat n, live = True, cells = Map.empty\<rparr>),
            next_id := Suc (next_id h)\<rparr>"
  by (auto simp: new_arr_def)

lemma delete_arr_Inr:
  assumes "delete_arr p h = Inr h'"
  shows "next_id h' = next_id h" and "max_alloc h' = max_alloc h"
    and "block_of p \<noteq> Some b \<Longrightarrow> blocks h' b = blocks h b"
    and "block_of p = Some b \<Longrightarrow>
           \<exists>blk. p = Ptr b 0 \<and> blocks h b = Some blk \<and> live blk
                 \<and> blocks h' b = Some (blk\<lparr>live := False\<rparr>)"
  using assms by (auto simp: delete_arr_def split: pointer.splits option.splits if_splits)

lemma memcpy_Inr:
  assumes "memcpy dst src n h = Inr h'"
  shows "next_id h' = next_id h" and "max_alloc h' = max_alloc h"
    and "block_of dst \<noteq> Some b \<Longrightarrow> blocks h' b = blocks h b"
    and "map_option bsize (blocks h' b) = map_option bsize (blocks h b)"
    and "map_option live (blocks h' b) = map_option live (blocks h b)"
  using assms by (auto simp: memcpy_def split: pointer.splits option.splits if_splits)

lemma grow_Inr_fields:
  assumes "grow n nocopy s = Inr s'"
  shows "base s' = Ptr (next_id (mem s)) 0" and "size_u32 s' = ucast n" and "own s' = own s"
    and "unat n \<le> max_alloc (mem s)"
    and "\<exists>dp. ptr_diff (ptr s) (base s) = Inr dp \<and> ptr s' = Ptr (next_id (mem s)) dp"
    and "\<exists>dm. ptr_diff (mark s) (base s) = Inr dm \<and> mark s' = Ptr (next_id (mem s)) dm"
  using assms
  by (auto simp: grow_def bind_res_Inr_iff new_arr_Inr)

lemma unat_ucast_32_64: "unat (ucast (w::uint32_t) :: size_t) = unat w"
  by (simp add: unsigned_ucast_eq take_bit_nat_eq_self_iff
      order_less_le_trans[OF unsigned_less])

lemma unat_ucast_64_32: "unat (ucast (n::size_t) :: uint32_t) = unat n mod 2 ^ 32"
  by (simp add: unsigned_ucast_eq take_bit_eq_mod)

lemma wf_cases:
  assumes "wf s"
  obtains (unalloc) "base s = Null" "ptr s = Null" "mark s = Null" "size_u32 s = 0"
  | (alloc) b i j blk where "base s = Ptr b 0" "ptr s = Ptr b i" "mark s = Ptr b j"
      "b < next_id (mem s)" "i \<le> ucast (size_u32 s)" "blocks (mem s) b = Some blk"
      "live blk" "unat (size_u32 s) \<le> bsize blk"
  using assms
  by (auto simp: wf_def split: pointer.splits option.splits)

lemma wf_fill:
  assumes "wf s"
  shows "\<exists>f. fill s = Inr f \<and> f \<le> ucast (size_u32 s)
           \<and> remaining s = Inr (ucast (size_u32 s) - f)
           \<and> (\<exists>m. ptr_diff (mark s) (base s) = Inr m)"
  using assms by (cases rule: wf_cases) (auto simp: fill_def remaining_def)

lemma grow_succeeds:
  assumes "wf s" and "unat n \<le> max_alloc (mem s)"
    and "nocopy \<or> (\<exists>f. fill s = Inr f \<and> unat f \<le> unat n)"
  shows "\<exists>s'. grow n nocopy s = Inr s'"
  using assms(1)
proof (cases rule: wf_cases)
  case unalloc
  then show ?thesis using assms(2)
    by (simp add: grow_def new_arr_def delete_arr_def)
next
  case (alloc b i j blk)
  have le: "unat i \<le> bsize blk"
    using alloc(5,8) by (simp add: word_le_nat_alt unat_ucast_32_64)
  show ?thesis
    using alloc assms(2,3) le
    by (auto simp: grow_def new_arr_def delete_arr_def memcpy_def fill_def)
qed

lemma delete_arr_bsize:
  "delete_arr p h = Inr h' \<Longrightarrow> map_option bsize (blocks h' b) = map_option bsize (blocks h b)"
  by (auto simp: delete_arr_def split: pointer.splits option.splits if_splits)

lemma grow_Inr_heap:
  assumes "grow n nocopy s = Inr s'"
  shows "next_id (mem s') = Suc (next_id (mem s))" and "max_alloc (mem s') = max_alloc (mem s)"
    and "map_option bsize (blocks (mem s') (next_id (mem s))) = Some (unat n)"
    and "b \<noteq> next_id (mem s) \<Longrightarrow> block_of (base s) \<noteq> Some b \<or> \<not> own s
           \<Longrightarrow> blocks (mem s') b = blocks (mem s) b"
    and "\<not> own s \<or> block_of (base s) \<noteq> Some (next_id (mem s))
           \<Longrightarrow> map_option live (blocks (mem s') (next_id (mem s))) = Some True"
    and "own s \<Longrightarrow> base s = Ptr b 0 \<Longrightarrow> map_option live (blocks (mem s') b) = Some False"
proof -
  define k where "k = next_id (mem s)"
  define h1 where "h1 = (mem s)\<lparr>blocks := (blocks (mem s))(k \<mapsto>
               \<lparr>bsize = unat n, live = True, cells = Map.empty\<rparr>), next_id := Suc k\<rparr>"
  from assms have "\<exists>h2. (if \<not> nocopy \<and> base s \<noteq> Null
               then bind_res (ptr_diff (ptr s) (base s)) (\<lambda>d. memcpy (Ptr k 0) (base s) d h1)
               else Inr h1) = Inr h2
         \<and> (if own s then delete_arr (base s) h2 else Inr h2) = Inr (mem s')"
    unfolding k_def h1_def
    by (auto simp: grow_def bind_res_Inr_iff new_arr_Inr)
  then obtain h2 where
    c: "(if \<not> nocopy \<and> base s \<noteq> Null
               then bind_res (ptr_diff (ptr s) (base s)) (\<lambda>d. memcpy (Ptr k 0) (base s) d h1)
               else Inr h1) = Inr h2"
    and h3: "(if own s then delete_arr (base s) h2 else Inr h2) = Inr (mem s')"
    by blast
  from c have h2: "h2 = h1 \<or> (\<exists>d. memcpy (Ptr k 0) (base s) d h1 = Inr h2)"
    by (auto simp: bind_res_Inr_iff split: if_splits)
  have h1s: "next_id h1 = Suc k" "max_alloc h1 = max_alloc (mem s)"
    "blocks h1 k = Some \<lparr>bsize = unat n, live = True, cells = Map.empty\<rparr>"
    "\<And>b. b \<noteq> k \<Longrightarrow> blocks h1 b = blocks (mem s) b"
    by (simp_all add: h1_def)
  have m1: "next_id h2 = next_id h1" "max_alloc h2 = max_alloc h1"
    "\<And>b. map_option bsize (blocks h2 b) = map_option bsize (blocks h1 b)"
    "\<And>b. map_option live (blocks h2 b) = map_option live (blocks h1 b)"
    "\<And>b. b \<noteq> k \<Longrightarrow> blocks h2 b = blocks h1 b"
    using h2 by (auto simp: memcpy_Inr)
  show "next_id (mem s') = Suc (next_id (mem s))"
    using h3 m1(1) h1s(1) by (auto simp: k_def delete_arr_Inr(1) split: if_splits)
  show "max_alloc (mem s') = max_alloc (mem s)"
    using h3 m1(2) h1s(2) by (auto simp: delete_arr_Inr(2) split: if_splits)
  have "map_option bsize (blocks (mem s') k) = map_option bsize (blocks h2 k)"
    using h3 by (cases "own s") (simp_all add: delete_arr_bsize)
  also have "\<dots> = map_option bsize (blocks h1 k)"
    by (rule m1(3))
  also have "\<dots> = Some (unat n)"
    by (simp add: h1s(3))
  finally show "map_option bsize (blocks (mem s') (next_id (mem s))) = Some (unat n)"
    by (simp add: k_def)
  show "blocks (mem s') b = blocks (mem s) b"
    if "b \<noteq> next_id (mem s)" "block_of (base s) \<noteq> Some b \<or> \<not> own s"
    using h3 m1(5)[of b] h1s(4)[of b] that
    by (auto simp: k_def[symmetric] delete_arr_Inr(3) split: if_splits)
  show "map_option live (blocks (mem s') (next_id (mem s))) = Some True"
    if "\<not> own s \<or> block_of (base s) \<noteq> Some (next_id (mem s))"
    using h3 m1(4)[of k] h1s(3) that
    by (auto simp: k_def[symmetric] delete_arr_Inr(3) split: if_splits)
  show "map_option live (blocks (mem s') b) = Some False" if "own s" "base s = Ptr b 0"
    using h3 that delete_arr_Inr(4)[of "base s" h2 "mem s'" b] by auto
qed


lemma grow_size_nat:
  fixes f len :: size_t
  assumes "(unat f + unat len) * 3 div 2 < 2 ^ 32"
  shows "unat (f + len) = unat f + unat len"
    and "unat ((f + len) * 3 div 2) = (unat f + unat len) * 3 div 2"
    and "unat (ucast ((f + len) * 3 div 2) :: uint32_t) = (unat f + unat len) * 3 div 2"
proof -
  have b: "unat f + unat len < 2 ^ 32"
    using assms by simp
  then show s: "unat (f + len) = unat f + unat len"
    by (simp add: unat_word_ariths)
  have "unat ((f + len) * 3) = (unat f + unat len) * 3"
    using b by (simp add: unat_word_ariths s)
  then show d: "unat ((f + len) * 3 div 2) = (unat f + unat len) * 3 div 2"
    by (simp add: unat_div)
  have "unat (ucast ((f + len) * 3 div 2) :: uint32_t)
          = unat ((f + len) * 3 div 2) mod 2 ^ 32"
    by (rule unat_ucast_64_32)
  also have "\<dots> = ((unat f + unat len) * 3 div 2) mod 2 ^ 32"
    by (simp only: d)
  also have "\<dots> = (unat f + unat len) * 3 div 2"
    using assms by (rule mod_less)
  finally show "unat (ucast ((f + len) * 3 div 2) :: uint32_t) = (unat f + unat len) * 3 div 2" .
qed

lemma remaining_nat:
  fixes f :: size_t
  assumes "f \<le> ucast (sz :: uint32_t)"
  shows "unat (ucast sz - f) = unat sz - unat f" and "unat f \<le> unat sz"
  using assms by (simp_all add: unat_sub word_le_nat_alt unat_ucast_32_64)


lemma guard_nat:
  fixes f len :: size_t
  assumes "f \<le> ucast (sz :: uint32_t)"
  shows "ucast sz - f < len \<longleftrightarrow> unat sz - unat f < unat len"
  using remaining_nat(1)[OF assms] by (simp add: word_less_nat_alt)

lemma memcpy_ok:
  assumes "blocks h bd = Some d" "blocks h bs = Some sb" "live d" "live sb" "bd \<noteq> bs"
    and "unat od + unat n \<le> bsize d" "unat os + unat n \<le> bsize sb"
  shows "\<exists>d'. memcpy (Ptr bd od) (Ptr bs os) n h = Inr (h\<lparr>blocks := (blocks h)(bd \<mapsto> d')\<rparr>)
           \<and> bsize d' = bsize d \<and> live d'
           \<and> (\<forall>i. cells d' i = (if unat od \<le> i \<and> i < unat od + unat n
                                   then cells sb (i - unat od + unat os) else cells d i))"
proof (cases "n = 0")
  case True
  have "h\<lparr>blocks := (blocks h)(bd \<mapsto> d)\<rparr> = h"
    using assms(1) by (simp add: fun_upd_idem)
  then show ?thesis
    using True assms(3) by (intro exI[of _ d]) (auto simp: memcpy_def)
next
  case False
  show ?thesis
    using False assms
    by (intro exI[of _ "d\<lparr>cells := (\<lambda>i. if unat od \<le> i \<and> i < unat od + unat n
                                             then cells sb (i - unat od + unat os)
                                             else cells d i)\<rparr>"])
       (simp add: memcpy_def)
qed

lemma read_bytes_Ptr:
  "blocks h b = Some blk \<Longrightarrow> read_bytes (Ptr b off) n h = map (cells blk) [unat off ..< unat off + n]"
  by (simp add: read_bytes_def)

lemma read_bytes_0 [simp]: "read_bytes p 0 h = []"
  by (simp add: read_bytes_def split: pointer.splits option.splits)

lemma map_shift: "map (\<lambda>i. c (i - a + b)) [a ..< a + n] = map c [b ..< b + (n::nat)]"
  by (induction n) (simp_all add: add.commute)

lemma grow_wf:
  assumes w: "wf s" and f: "fill s = Inr f" and le: "unat f \<le> unat n"
    and n32: "unat n < 2 ^ 32" and al: "unat n \<le> max_alloc (mem s)"
  shows "\<exists>s'. grow n False s = Inr s' \<and> wf s' \<and> fill s' = Inr f
           \<and> size_u32 s' = ucast n \<and> own s' = own s
           \<and> base s' = Ptr (next_id (mem s)) 0
           \<and> read_bytes (base s') (unat f) (mem s') = read_bytes (base s) (unat f) (mem s)
           \<and> max_alloc (mem s') = max_alloc (mem s)
           \<and> next_id (mem s') = Suc (next_id (mem s))
           \<and> (\<forall>b. b < next_id (mem s) \<and> block_of (base s) \<noteq> Some b
                  \<longrightarrow> blocks (mem s') b = blocks (mem s) b)"
proof -
  define k where "k = next_id (mem s)"
  define nb where "nb = \<lparr>bsize = unat n, live = True, cells = Map.empty\<rparr>"
  define h1 where "h1 = (mem s)\<lparr>blocks := (blocks (mem s))(k \<mapsto> nb), next_id := Suc k\<rparr>"
  have na: "new_arr n (mem s) = Inr (Ptr k 0, h1)"
    using al by (simp add: new_arr_def h1_def nb_def k_def)
  have u32: "unat (ucast n :: uint32_t) = unat n"
    using n32 by (simp add: unat_ucast_64_32)
  from w show ?thesis
  proof (cases rule: wf_cases)
    case unalloc
    have f0: "f = 0"
      using f unalloc by (simp add: fill_def)
    have g: "grow n False s
             = Inr (s\<lparr>ptr := Ptr k 0, mark := Ptr k 0, base := Ptr k 0,
                      size_u32 := ucast n, mem := h1\<rparr>)"
      using unalloc na by (simp add: grow_def delete_arr_def)
    show ?thesis
      unfolding g k_def[symmetric]
      by (simp add: wf_def fill_def f0 h1_def nb_def u32 unalloc)
  next
    case (alloc b i j blk)
    have fi: "f = i"
      using f alloc by (simp add: fill_def)
    have ib: "unat i \<le> bsize blk"
      using alloc(5,8) remaining_nat(2) by fastforce
    have bk: "b \<noteq> k" "k \<noteq> b"
      using alloc(4) by (simp_all add: k_def)
    obtain d' where m: "memcpy (Ptr k 0) (Ptr b 0) i h1
                         = Inr (h1\<lparr>blocks := (blocks h1)(k \<mapsto> d')\<rparr>)"
      and d': "bsize d' = unat n" "live d'"
        "\<And>x. cells d' x = (if x < unat i then cells blk x else None)"
      using memcpy_ok[of h1 k nb b blk 0 i 0] alloc(6,7) bk le fi ib
      by (auto simp: h1_def nb_def)
    define h2 where "h2 = h1\<lparr>blocks := (blocks h1)(k \<mapsto> d')\<rparr>"
    define h3 where "h3 = (if own s then h2\<lparr>blocks := (blocks h2)(b \<mapsto> blk\<lparr>live := False\<rparr>)\<rparr>
                           else h2)"
    have del: "(if own s then delete_arr (base s) h2 else Inr h2) = Inr h3"
      using alloc(1,6,7) bk by (simp add: delete_arr_def h3_def h2_def h1_def)
    have g: "grow n False s
             = Inr (s\<lparr>ptr := Ptr k i, mark := Ptr k j, base := Ptr k 0,
                      size_u32 := ucast n, mem := h3\<rparr>)"
      using na m del alloc(1,2,3) by (simp add: grow_def h2_def[symmetric])
    have h3k: "blocks h3 k = Some d'" "next_id h3 = Suc k" "max_alloc h3 = max_alloc (mem s)"
      using bk by (simp_all add: h3_def h2_def h1_def)
    have h3o: "blocks h3 c = blocks (mem s) c" if "c \<noteq> k" "c \<noteq> b" for c
      using that by (simp add: h3_def h2_def h1_def)
    have iu: "i \<le> ucast (ucast n :: uint32_t)"
      using le fi u32 by (simp add: word_le_nat_alt unat_ucast_32_64)
    have rd: "read_bytes (Ptr k 0) (unat i) h3 = read_bytes (Ptr b 0) (unat i) (mem s)"
      using h3k(1) alloc(6) d'(3) by (simp add: read_bytes_Ptr)
    show ?thesis
      unfolding g k_def[symmetric]
      using h3k h3o iu rd d'(1,2) u32
      by (auto simp: wf_def fill_def fi alloc(1))
  qed
qed


lemma ensure_step:
  assumes w: "wf s" and f: "fill s = Inr f"
    and b32: "(unat f + unat len) * 3 div 2 < 2 ^ 32"
    and al: "(unat f + unat len) * 3 div 2 \<le> max_alloc (mem s)"
  shows "\<exists>s1. ensure len s = Inr s1 \<and> wf s1 \<and> fill s1 = Inr f
           \<and> unat f + unat len \<le> unat (size_u32 s1) \<and> own s1 = own s
           \<and> read_bytes (base s1) (unat f) (mem s1) = read_bytes (base s) (unat f) (mem s)
           \<and> max_alloc (mem s1) = max_alloc (mem s)
           \<and> next_id (mem s) \<le> next_id (mem s1)
           \<and> (\<forall>b. b < next_id (mem s) \<and> block_of (base s) \<noteq> Some b
                  \<longrightarrow> blocks (mem s1) b = blocks (mem s) b)
           \<and> (block_of (base s1) = block_of (base s)
                \<or> block_of (base s1) = Some (next_id (mem s)))"
proof -
  from wf_fill[OF w] f have fl: "f \<le> ucast (size_u32 s)"
    and r: "remaining s = Inr (ucast (size_u32 s) - f)"
    by auto
  show ?thesis
  proof (cases "ucast (size_u32 s) - f < len")
    case True
    let ?n = "(f + len) * 3 div 2"
    note n = grow_size_nat[OF b32]
    have "unat f \<le> unat ?n" "unat ?n < 2 ^ 32" "unat ?n \<le> max_alloc (mem s)"
      using n(2) b32 al by simp_all
    from grow_wf[OF w f this] obtain s' where g: "grow ?n False s = Inr s'"
      and p: "wf s'" "fill s' = Inr f" "size_u32 s' = ucast ?n" "own s' = own s"
        "base s' = Ptr (next_id (mem s)) 0"
        "read_bytes (base s') (unat f) (mem s') = read_bytes (base s) (unat f) (mem s)"
        "max_alloc (mem s') = max_alloc (mem s)"
        "next_id (mem s') = Suc (next_id (mem s))"
        "\<forall>b. b < next_id (mem s) \<and> block_of (base s) \<noteq> Some b
                  \<longrightarrow> blocks (mem s') b = blocks (mem s) b"
      by blast
    have e: "ensure len s = Inr s'"
      using True r f g by (simp add: ensure_def)
    have "unat f + unat len \<le> unat (size_u32 s')"
      using p(3) n(3) by simp
    then show ?thesis
      using e p by auto
  next
    case False
    have e: "ensure len s = Inr s"
      using False r by (simp add: ensure_def)
    have "unat f + unat len \<le> unat (size_u32 s)"
      using False guard_nat[OF fl, of len] remaining_nat(2)[OF fl] by simp
    then show ?thesis
      using e w f by simp
  qed
qed

lemma add_unchecked_step:
  assumes w: "wf s" and f: "fill s = Inr f"
    and cap: "unat f + unat len \<le> unat (size_u32 s)"
    and src: "src_ok (mem s) (block_of (base s)) (data, len)"
  shows "\<exists>r s'. add_unchecked data len s = Inr (r, s') \<and> wf s' \<and> fill s' = Inr (f + len)
           \<and> unat (f + len) = unat f + unat len \<and> own s' = own s
           \<and> base s' = base s \<and> size_u32 s' = size_u32 s
           \<and> read_bytes (base s') (unat f + unat len) (mem s')
               = read_bytes (base s) (unat f) (mem s) @ read_bytes data (unat len) (mem s)
           \<and> max_alloc (mem s') = max_alloc (mem s)
           \<and> next_id (mem s') = next_id (mem s)
           \<and> (\<forall>b. block_of (base s) \<noteq> Some b \<longrightarrow> blocks (mem s') b = blocks (mem s) b)"
proof -
  from src obtain bs os sb where data: "data = Ptr bs os"
    and sb: "blocks (mem s) bs = Some sb" "live sb" "unat os + unat len \<le> bsize sb"
      "block_of (base s) \<noteq> Some bs"
    by (auto simp: src_ok_def split: pointer.splits option.splits)
  have s32: "unat (size_u32 s) < 2 ^ 32"
    using unsigned_less[of "size_u32 s"] by simp
  have sum: "unat (f + len) = unat f + unat len"
    using cap s32 by (simp add: unat_word_ariths)
  from w show ?thesis
  proof (cases rule: wf_cases)
    case unalloc
    have z: "f = 0" "len = 0"
      using f cap unalloc by (simp_all add: fill_def unat_eq_0)
    have "add_unchecked data len s = Inr (Null, s)"
      using unalloc z data by (simp add: add_unchecked_def memcpy_def)
    then show ?thesis
      using w f z unalloc by simp
  next
    case (alloc b i j blk)
    have fi: "f = i"
      using f alloc by (simp add: fill_def)
    have bb: "b \<noteq> bs"
      using sb(4) alloc(1) by auto
    have ib: "unat i + unat len \<le> bsize blk"
      using cap alloc(8) fi by simp
    obtain d' where m: "memcpy (Ptr b i) (Ptr bs os) len (mem s)
                         = Inr ((mem s)\<lparr>blocks := (blocks (mem s))(b \<mapsto> d')\<rparr>)"
      and d': "bsize d' = bsize blk" "live d'"
        "\<And>x. cells d' x = (if unat i \<le> x \<and> x < unat i + unat len
                               then cells sb (x - unat i + unat os) else cells blk x)"
      using memcpy_ok[OF alloc(6) sb(1) alloc(7) sb(2) bb, of i len os] ib sb(3)
      by auto
    define h' where "h' = (mem s)\<lparr>blocks := (blocks (mem s))(b \<mapsto> d')\<rparr>"
    have a: "add_unchecked data len s = Inr (Ptr b i, s\<lparr>ptr := Ptr b (i + len), mem := h'\<rparr>)"
      using m alloc(2) data by (simp add: add_unchecked_def h'_def)
    have il: "i + len \<le> ucast (size_u32 s)"
      using cap sum fi by (simp add: word_le_nat_alt unat_ucast_32_64)
    have "[0 ..< unat i + unat len] = [0 ..< unat i] @ [unat i ..< unat i + unat len]"
      by (rule upt_add_eq_append) simp
    then have "map (cells d') [0 ..< unat i + unat len]
            = map (cells d') [0 ..< unat i] @ map (cells d') [unat i ..< unat i + unat len]"
      by (simp only: map_append)
    also have "map (cells d') [0 ..< unat i] = map (cells blk) [0 ..< unat i]"
      by (simp add: d'(3))
    also have "map (cells d') [unat i ..< unat i + unat len]
                 = map (\<lambda>x. cells sb (x - unat i + unat os)) [unat i ..< unat i + unat len]"
      by (simp add: d'(3))
    also have "\<dots> = map (cells sb) [unat os ..< unat os + unat len]"
      by (rule map_shift)
    finally have rd: "read_bytes (Ptr b 0) (unat i + unat len) h'
             = read_bytes (Ptr b 0) (unat i) (mem s) @ read_bytes (Ptr bs os) (unat len) (mem s)"
      using alloc(6) sb(1) by (simp add: read_bytes_Ptr h'_def)
    have hk: "blocks h' b = Some d'" "next_id h' = next_id (mem s)"
      "max_alloc h' = max_alloc (mem s)"
      by (simp_all add: h'_def)
    have ho: "blocks h' c = blocks (mem s) c" if "c \<noteq> b" for c
      using that by (simp add: h'_def)
    show ?thesis
      unfolding a
      using hk ho il rd d'(1,2) alloc(1,3,4,8) sum fi data
      by (auto simp: wf_def fill_def)
  qed
qed


lemma src_ok_frame:
  assumes "src_ok h buf x" and "next_id h \<le> next_id h'"
    and "\<forall>b. b < next_id h \<and> buf \<noteq> Some b \<longrightarrow> blocks h' b = blocks h b"
    and "buf' = buf \<or> buf' = Some (next_id h)"
  shows "src_ok h' buf' x" and "read_bytes (fst x) n h' = read_bytes (fst x) n h"
  using assms
  by (auto simp: src_ok_def read_bytes_def split: pointer.splits option.splits)

lemma add_step:
  assumes w: "wf s" and f: "fill s = Inr f"
    and src: "src_ok (mem s) (block_of (base s)) (data, len)"
    and b32: "(unat f + unat len) * 3 div 2 < 2 ^ 32"
    and al: "(unat f + unat len) * 3 div 2 \<le> max_alloc (mem s)"
  shows "\<exists>r s'. add data len s = Inr (r, s') \<and> wf s' \<and> fill s' = Inr (f + len)
           \<and> unat (f + len) = unat f + unat len
           \<and> read_bytes (base s') (unat f + unat len) (mem s')
               = read_bytes (base s) (unat f) (mem s) @ read_bytes data (unat len) (mem s)
           \<and> max_alloc (mem s') = max_alloc (mem s)
           \<and> next_id (mem s) \<le> next_id (mem s')
           \<and> (\<forall>b. b < next_id (mem s) \<and> block_of (base s) \<noteq> Some b
                  \<longrightarrow> blocks (mem s') b = blocks (mem s) b)
           \<and> (block_of (base s') = block_of (base s)
                \<or> block_of (base s') = Some (next_id (mem s)))"
proof -
  from ensure_step[OF w f b32 al] obtain s1 where e: "ensure len s = Inr s1"
    and p: "wf s1" "fill s1 = Inr f" "unat f + unat len \<le> unat (size_u32 s1)"
      "read_bytes (base s1) (unat f) (mem s1) = read_bytes (base s) (unat f) (mem s)"
      "max_alloc (mem s1) = max_alloc (mem s)"
      "next_id (mem s) \<le> next_id (mem s1)"
    and fr: "\<forall>b. b < next_id (mem s) \<and> block_of (base s) \<noteq> Some b
                  \<longrightarrow> blocks (mem s1) b = blocks (mem s) b"
    and bs: "block_of (base s1) = block_of (base s)
                \<or> block_of (base s1) = Some (next_id (mem s))"
    by blast
  note so = src_ok_frame[OF src p(6) fr bs]
  from add_unchecked_step[OF p(1,2,3) so(1)] obtain r s' where
    a: "add_unchecked data len s1 = Inr (r, s')"
    and q: "wf s'" "fill s' = Inr (f + len)" "unat (f + len) = unat f + unat len"
      "base s' = base s1"
      "read_bytes (base s') (unat f + unat len) (mem s')
         = read_bytes (base s1) (unat f) (mem s1) @ read_bytes data (unat len) (mem s1)"
      "max_alloc (mem s') = max_alloc (mem s1)"
      "next_id (mem s') = next_id (mem s1)"
    and fr': "\<forall>b. block_of (base s1) \<noteq> Some b \<longrightarrow> blocks (mem s') b = blocks (mem s1) b"
    by blast
  have ad: "add data len s = Inr (r, s')"
    using e a by (simp add: add_def)
  have rd: "read_bytes (base s') (unat f + unat len) (mem s')
               = read_bytes (base s) (unat f) (mem s) @ read_bytes data (unat len) (mem s)"
    using q(5) p(4) so(2)[of "unat len"] by simp
  have frame: "blocks (mem s') b = blocks (mem s) b"
    if "b < next_id (mem s)" "block_of (base s) \<noteq> Some b" for b
  proof -
    have "block_of (base s1) \<noteq> Some b"
      using bs that by auto
    then show ?thesis
      using fr fr' that by simp
  qed
  show ?thesis
    using ad q(1,2,3,4) rd p(5,6) q(6,7) frame bs
    by (intro exI[of _ r] exI[of _ s']) simp
qed

section \<open>Growth keeps the logical offsets\<close>

text \<open>
  Claim C4.  Whenever \<open>grow\<close> returns, the new \<open>ptr\<close> is the new \<open>base\<close> plus the old
  difference \<open>ptr - base\<close>, and the new \<open>mark\<close> is the new \<open>base\<close> plus the old
  difference \<open>mark - base\<close>; so cursor and bookmark are as far from the start of the
  region after the reallocation as they were before it.  On a state that satisfies the
  invariant \<open>grow\<close> does return, when the store grants the request and, unless
  \<open>nocopy\<close> is set, the used bytes fit into the new size.
\<close>

theorem grow_keeps_offsets:
  "(\<forall>s'. grow new_size nocopy s = Inr s' \<longrightarrow>
      (\<exists>dp dm. ptr_diff (ptr s) (base s) = Inr dp \<and> ptr_diff (mark s) (base s) = Inr dm
         \<and> ptr_add (base s') dp = Inr (ptr s') \<and> ptr_add (base s') dm = Inr (mark s')
         \<and> ptr_diff (ptr s') (base s') = Inr dp \<and> ptr_diff (mark s') (base s') = Inr dm))
   \<and> (wf s \<and> unat new_size \<le> max_alloc (mem s)
        \<and> (nocopy \<or> (\<exists>f. fill s = Inr f \<and> unat f \<le> unat new_size))
      \<longrightarrow> (\<exists>s'. grow new_size nocopy s = Inr s'))"
proof (intro conjI allI impI)
  fix s' assume g: "grow new_size nocopy s = Inr s'"
  from grow_Inr_fields(1,5,6)[OF g]
  show "\<exists>dp dm. ptr_diff (ptr s) (base s) = Inr dp \<and> ptr_diff (mark s) (base s) = Inr dm
         \<and> ptr_add (base s') dp = Inr (ptr s') \<and> ptr_add (base s') dm = Inr (mark s')
         \<and> ptr_diff (ptr s') (base s') = Inr dp \<and> ptr_diff (mark s') (base s') = Inr dm"
    by auto
next
  assume "wf s \<and> unat new_size \<le> max_alloc (mem s)
        \<and> (nocopy \<or> (\<exists>f. fill s = Inr f \<and> unat f \<le> unat new_size))"
  then show "\<exists>s'. grow new_size nocopy s = Inr s'"
    using grow_succeeds by blast
qed

text \<open>The full six-byte buffer with its bookmark at offset 4, grown to nine bytes.\<close>

theorem grow_keeps_offsets_witness:
  "wf marked_buf \<and> unat (9 :: size_t) \<le> max_alloc (mem marked_buf)
   \<and> fill marked_buf = Inr 6
   \<and> map_sum id (\<lambda>s. (base s, ptr s, mark s)) (grow 9 False marked_buf)
       = Inr (Ptr 2 0, Ptr 2 6, Ptr 2 4)"
  using grow_keeps_offsets [of 9 False marked_buf]
  by (simp add: marked_buf_def wf_def ops_defs)

section \<open>Null data\<close>

text \<open>
  Claim C5.  \<open>add_unchecked\<close> with a null data pointer returns a null pointer and the
  state it was given, whatever the length.  \<open>add\<close> with a null data pointer first runs
  \<open>ensure(len)\<close> and then returns null with the state \<open>ensure\<close> left; that state can
  have a larger capacity: on a fresh four-byte buffer, \<open>add(0, 8)\<close> leaves a capacity
  of 12.
\<close>

theorem add_unchecked_null_noop:
  "add_unchecked Null len s = Inr (Null, s)
   \<and> add Null len s = bind_res (ensure len s) (\<lambda>s'. Inr (Null, s'))
   \<and> map_sum id size_u32 (DynamicBuffer 4 True heap0) = Inr 4
   \<and> map_sum id (size_u32 \<circ> snd) (bind_res (DynamicBuffer 4 True heap0) (add Null 8))
       = Inr 12"
proof -
  have u: "add_unchecked Null len = (\<lambda>s'. Inr (Null, s'))"
    by (simp add: fun_eq_iff add_unchecked_def)
  have "map_sum id size_u32 (DynamicBuffer 4 True heap0) = Inr 4
     \<and> map_sum id (size_u32 \<circ> snd) (bind_res (DynamicBuffer 4 True heap0) (add Null 8))
       = Inr 12"
    by (simp add: ops_defs heap0_def)
  then show ?thesis
    by (simp add: u add_def)
qed

section \<open>Release\<close>

text \<open>
  Claim C6.  \<open>release\<close> returns the old \<open>base\<close>; when a length pointer is supplied
  the value stored through it is \<open>fill()\<close>; the object is left with \<open>base\<close>, \<open>ptr\<close>
  and \<open>mark\<close> null and \<open>size\<close> zero; the free store is not touched.  Destroying the
  object afterwards leaves the free store as it was, whatever the flag \<open>own\<close> says.
\<close>

theorem release_detaches:
  "release False s
     = Inr (base s, None, s\<lparr>ptr := Null, base := Null, mark := Null, size_u32 := 0\<rparr>)
   \<and> (fill s = Inr n \<longrightarrow>
        release True s
          = Inr (base s, Some n, s\<lparr>ptr := Null, base := Null, mark := Null, size_u32 := 0\<rparr>))
   \<and> destroy (s\<lparr>ptr := Null, base := Null, mark := Null, size_u32 := 0\<rparr>) = Inr (mem s)"
  by (simp add: release_def destroy_def delete_arr_def)

theorem release_detaches_witness:
  "fill marked_buf = Inr 6
   \<and> map_sum id (\<lambda>r. (fst r, fst (snd r), base (snd (snd r)), ptr (snd (snd r)),
                        mark (snd (snd r)), size_u32 (snd (snd r))))
        (release True marked_buf) = Inr (Ptr 1 0, Some 6, Null, Null, Null, 0)
   \<and> map_sum id (\<lambda>h. map_option live (blocks h 1))
        (bind_res (release True marked_buf) (\<lambda>r. destroy (snd (snd r)))) = Inr (Some True)"
  using release_detaches [of marked_buf 6]
  by (simp add: marked_buf_def fill_def destroy_def delete_arr_def)

section \<open>Clear\<close>

text \<open>
  Claim C7.  \<open>clear\<close> sets \<open>ptr\<close> to \<open>base\<close>: afterwards \<open>fill()\<close> is 0 and
  \<open>empty()\<close> holds, while \<open>size\<close>, \<open>base\<close>, \<open>own\<close> and the free store are as
  before.  An \<open>add\<close> of at most \<open>size\<close> bytes that follows does not reallocate:
  \<open>ensure\<close> returns the state unchanged, \<open>add\<close> is \<open>add_unchecked\<close>, and when it
  returns, \<open>base\<close> and \<open>size\<close> are the old ones and no block has been handed out.
\<close>

theorem clear_keeps_capacity:
  "fill (clear s) = Inr 0 \<and> empty_buf (clear s)
   \<and> size_u32 (clear s) = size_u32 s \<and> base (clear s) = base s \<and> own (clear s) = own s
   \<and> mem (clear s) = mem s
   \<and> (len \<le> ucast (size_u32 s) \<longrightarrow>
        ensure len (clear s) = Inr (clear s)
        \<and> add data len (clear s) = add_unchecked data len (clear s)
        \<and> (\<forall>r s'. add data len (clear s) = Inr (r, s') \<longrightarrow>
              base s' = base s \<and> size_u32 s' = size_u32 s
              \<and> next_id (mem s') = next_id (mem s)))"
proof -
  have f: "ptr_diff (base s) (base s) = Inr 0"
    by (cases "base s") simp_all
  have e: "ensure len (clear s) = Inr (clear s)" if "len \<le> ucast (size_u32 s)"
  proof -
    have "\<not> ucast (size_u32 s) < len"
      using that by (simp add: not_less)
    then show ?thesis
      using f by (simp add: ensure_def remaining_def clear_def)
  qed
  have u: "base s' = base s \<and> size_u32 s' = size_u32 s \<and> next_id (mem s') = next_id (mem s)"
    if "add_unchecked data len (clear s) = Inr (r, s')" for r s'
    using that
    by (auto simp: add_unchecked_def clear_def bind_res_Inr_iff memcpy_Inr(1) split: if_splits)
  have a: "add data len (clear s) = add_unchecked data len (clear s)"
    if "len \<le> ucast (size_u32 s)"
    using e [OF that] by (simp add: add_def)
  have q: "fill (clear s) = Inr 0 \<and> empty_buf (clear s)
   \<and> size_u32 (clear s) = size_u32 s \<and> base (clear s) = base s \<and> own (clear s) = own s
   \<and> mem (clear s) = mem s"
    using f by (simp add: fill_def clear_def empty_buf_def)
  show ?thesis
    using q e a u by metis
qed

text \<open>The six-byte buffer cleared, then four bytes of block 0 appended.\<close>

theorem clear_keeps_capacity_witness:
  "(4 :: size_t) \<le> ucast (size_u32 marked_buf)
   \<and> ensure 4 (clear marked_buf) = Inr (clear marked_buf)
   \<and> map_sum id (\<lambda>r. (base (snd r), ptr (snd r), size_u32 (snd r), next_id (mem (snd r))))
        (add (Ptr 0 2) 4 (clear marked_buf)) = Inr (Ptr 1 0, Ptr 1 4, 6, 2)"
  using clear_keeps_capacity [of marked_buf 4 "Ptr 0 2"]
  by (simp add: marked_buf_def ops_defs)

text \<open>
  Claim C10.  \<open>clear\<close> leaves \<open>mark\<close> as it is while it sets \<open>ptr\<close> to \<open>base\<close>.
  After \<open>set_mark\<close> on the full six-byte buffer and a \<open>clear\<close>, the bookmark is six
  bytes beyond the cursor: \<open>mark \<le> ptr\<close> is not kept by the operations.
\<close>

theorem clear_keeps_mark:
  "mark (clear s) = mark s \<and> ptr (clear s) = base s
   \<and> mark (clear (set_mark marked_buf)) = Ptr 1 6
   \<and> ptr (clear (set_mark marked_buf)) = Ptr 1 0
   \<and> ptr_diff (mark (clear (set_mark marked_buf))) (ptr (clear (set_mark marked_buf))) = Inr 6"
  by (simp add: clear_def set_mark_def marked_buf_def)

section \<open>The 32-bit capacity field\<close>

text \<open>
  Claim C9.  \<open>grow\<close> takes a 64-bit \<open>new_size\<close>, allocates that many bytes, and
  stores \<open>new_size\<close> in the 32-bit member \<open>size\<close>: whenever \<open>grow\<close> returns, the
  recorded capacity is \<open>new_size\<close> modulo \<open>2^32\<close> while the block it allocated has
  \<open>new_size\<close> bytes, so for \<open>new_size \<ge> 2^32\<close> the recorded capacity is smaller
  than the allocation.  After \<open>ensure(3000000000)\<close> on an empty buffer the recorded
  capacity is 205032704, and after \<open>reserve(4294967301)\<close> it is 5: both smaller than
  \<open>fill() + len\<close>.
\<close>

theorem grow_truncates_size:
  "(\<forall>s'. grow new_size nocopy s = Inr s' \<longrightarrow>
      size_u32 s' = ucast new_size
      \<and> unat (size_u32 s') = unat new_size mod 2 ^ 32
      \<and> base s' = Ptr (next_id (mem s)) 0
      \<and> map_option bsize (blocks (mem s') (next_id (mem s))) = Some (unat new_size)
      \<and> (2 ^ 32 \<le> unat new_size \<longrightarrow> unat (size_u32 s') < unat new_size))
   \<and> map_sum id (\<lambda>s'. (unat (size_u32 s'), map_option bsize (blocks (mem s') 0)))
        (ensure 3000000000 fresh_buf) = Inr (205032704, Some 4500000000)
   \<and> map_sum id (\<lambda>s'. (unat (size_u32 s'), map_option bsize (blocks (mem s') 0)))
        (reserve 4294967301 False fresh_buf) = Inr (5, Some 4294967301)"
proof (intro conjI allI impI)
  fix s' assume g: "grow new_size nocopy s = Inr s'"
  show "size_u32 s' = ucast new_size"
    by (rule grow_Inr_fields(2)[OF g])
  then show m: "unat (size_u32 s') = unat new_size mod 2 ^ 32"
    by (simp add: unat_ucast_64_32)
  show "base s' = Ptr (next_id (mem s)) 0"
    by (rule grow_Inr_fields(1)[OF g])
  show "map_option bsize (blocks (mem s') (next_id (mem s))) = Some (unat new_size)"
    by (rule grow_Inr_heap(3)[OF g])
  assume "2 ^ 32 \<le> unat new_size"
  moreover have "unat new_size mod 2 ^ 32 < 2 ^ 32"
    by simp
  ultimately show "unat (size_u32 s') < unat new_size"
    using m by linarith
next
  show "map_sum id (\<lambda>s'. (unat (size_u32 s'), map_option bsize (blocks (mem s') 0)))
        (ensure 3000000000 fresh_buf) = Inr (205032704, Some 4500000000)"
    by (simp add: fresh_buf_def heap0_def ops_defs)
next
  show "map_sum id (\<lambda>s'. (unat (size_u32 s'), map_option bsize (blocks (mem s') 0)))
        (reserve 4294967301 False fresh_buf) = Inr (5, Some 4294967301)"
    by (simp add: fresh_buf_def heap0_def ops_defs)
qed

text \<open>\<open>grow(4500000000)\<close> on the empty buffer.\<close>

theorem grow_truncates_size_witness:
  "map_sum id (\<lambda>s'. (unat (size_u32 s'), base s', map_option bsize (blocks (mem s') 0)))
      (grow 4500000000 False fresh_buf) = Inr (205032704, Ptr 0 0, Some 4500000000)
   \<and> (2 :: nat) ^ 32 \<le> unat (4500000000 :: size_t)
   \<and> (205032704 :: nat) = 4500000000 mod 2 ^ 32"
  using grow_truncates_size [of 4500000000 False fresh_buf]
  by (simp add: fresh_buf_def heap0_def ops_defs)

section \<open>Ownership across growth\<close>

text \<open>
  Claim C1 says that after a growth the instance owns the new region whatever \<open>own\<close>
  was, so that a buffer built with \<open>own_buffer = false\<close> and then grown frees the new
  region when it is destroyed.  \<open>grow\<close> never writes \<open>own\<close>.  A buffer built by
  \<open>DynamicBuffer(4, false)\<close> and grown by \<open>ensure(8)\<close> has its region in block 1
  and \<open>own\<close> still false; after the destructor both block 0 and block 1 are still
  allocated.
\<close>

theorem grow_owns_new_region_counterexample:
  "map_sum id (\<lambda>s. (base s, own s)) (bind_res (DynamicBuffer 4 False heap0) (ensure 8))
     = Inr (Ptr 1 0, False)
   \<and> map_sum id (\<lambda>h. (map_option live (blocks h 0), map_option live (blocks h 1)))
       (bind_res (bind_res (DynamicBuffer 4 False heap0) (ensure 8)) destroy)
     = Inr (Some True, Some True)"
  by (simp add: heap0_def ops_defs)

text \<open>
  Claim C1 as amended.  Whenever \<open>grow\<close> returns, \<open>own\<close> is what it was and
  \<open>base\<close> is the block just allocated.  With \<open>own\<close> false the new block is
  allocated, every other block is as before, and the destructor leaves the free store
  untouched: neither region is freed by the instance.  With \<open>own\<close> true, on a state
  satisfying the invariant, the old region has been freed, the new one is allocated, and
  the destructor frees the new one.
\<close>

theorem grow_keeps_ownership:
  "(\<forall>s'. grow new_size nocopy s = Inr s' \<longrightarrow>
      own s' = own s \<and> base s' = Ptr (next_id (mem s)) 0
      \<and> (\<not> own s \<longrightarrow>
            map_option live (blocks (mem s') (next_id (mem s))) = Some True
            \<and> (\<forall>b. b \<noteq> next_id (mem s) \<longrightarrow> blocks (mem s') b = blocks (mem s) b)
            \<and> destroy s' = Inr (mem s'))
      \<and> (own s \<and> wf s \<longrightarrow>
            (\<forall>b. base s = Ptr b 0 \<longrightarrow> map_option live (blocks (mem s') b) = Some False)
            \<and> map_option live (blocks (mem s') (next_id (mem s))) = Some True
            \<and> map_sum id (\<lambda>h. map_option live (blocks h (next_id (mem s)))) (destroy s')
                = Inr (Some False)))"
proof (intro allI impI)
  fix s' assume g: "grow new_size nocopy s = Inr s'"
  note f = grow_Inr_fields[OF g] and h = grow_Inr_heap[OF g]
  have a: "own s' = own s \<and> base s' = Ptr (next_id (mem s)) 0"
    using f(1,3) by simp
  have b: "map_option live (blocks (mem s') (next_id (mem s))) = Some True
            \<and> (\<forall>b. b \<noteq> next_id (mem s) \<longrightarrow> blocks (mem s') b = blocks (mem s) b)
            \<and> destroy s' = Inr (mem s')" if "\<not> own s"
    using that h(4,5) f(3) by (simp add: destroy_def)
  have c: "(\<forall>b. base s = Ptr b 0 \<longrightarrow> map_option live (blocks (mem s') b) = Some False)
            \<and> map_option live (blocks (mem s') (next_id (mem s))) = Some True
            \<and> map_sum id (\<lambda>h. map_option live (blocks h (next_id (mem s)))) (destroy s')
                = Inr (Some False)" if "own s" "wf s"
  proof -
    have ne: "block_of (base s) \<noteq> Some (next_id (mem s))"
      using that(2) by (cases rule: wf_cases) auto
    have l: "map_option live (blocks (mem s') (next_id (mem s))) = Some True"
      using h(5) ne by simp
    then have "map_sum id (\<lambda>h. map_option live (blocks h (next_id (mem s)))) (destroy s')
                = Inr (Some False)"
      using f(1,3) that(1) by (auto simp: destroy_def delete_arr_def)
    then show ?thesis
      using l h(6)[OF that(1)] by simp
  qed
  show "own s' = own s \<and> base s' = Ptr (next_id (mem s)) 0
      \<and> (\<not> own s \<longrightarrow>
            map_option live (blocks (mem s') (next_id (mem s))) = Some True
            \<and> (\<forall>b. b \<noteq> next_id (mem s) \<longrightarrow> blocks (mem s') b = blocks (mem s) b)
            \<and> destroy s' = Inr (mem s'))
      \<and> (own s \<and> wf s \<longrightarrow>
            (\<forall>b. base s = Ptr b 0 \<longrightarrow> map_option live (blocks (mem s') b) = Some False)
            \<and> map_option live (blocks (mem s') (next_id (mem s))) = Some True
            \<and> map_sum id (\<lambda>h. map_option live (blocks h (next_id (mem s)))) (destroy s')
                = Inr (Some False))"
    using a b c by blast
qed

text \<open>The six-byte buffer grown to nine bytes, once owning and once not.\<close>

theorem grow_keeps_ownership_witness:
  "wf marked_buf \<and> own marked_buf \<and> \<not> own (marked_buf\<lparr>own := False\<rparr>)
   \<and> map_sum id (\<lambda>s. (own s, base s, map_option live (blocks (mem s) 1),
                        map_option live (blocks (mem s) 2)))
       (grow 9 False marked_buf) = Inr (True, Ptr 2 0, Some False, Some True)
   \<and> map_sum id (\<lambda>h. map_option live (blocks h 2))
       (bind_res (grow 9 False marked_buf) destroy) = Inr (Some False)
   \<and> map_sum id (\<lambda>s. (own s, base s, map_option live (blocks (mem s) 1),
                        map_option live (blocks (mem s) 2)))
       (grow 9 False (marked_buf\<lparr>own := False\<rparr>)) = Inr (False, Ptr 2 0, Some True, Some True)
   \<and> map_sum id (\<lambda>h. (map_option live (blocks h 1), map_option live (blocks h 2)))
       (bind_res (grow 9 False (marked_buf\<lparr>own := False\<rparr>)) destroy)
       = Inr (Some True, Some True)"
  using grow_keeps_ownership [of 9 False marked_buf]
    grow_keeps_ownership [of 9 False "marked_buf\<lparr>own := False\<rparr>"]
  by (simp add: marked_buf_def wf_def ops_defs)

section \<open>The capacity after ensure\<close>

text \<open>
  Claim C3.  An \<open>ensure(len)\<close> that finds \<open>len > remaining()\<close> is to leave a
  capacity of \<open>(fill() + len) * 3 / 2\<close>, rounded down, which is at least
  \<open>fill() + len\<close>.  On the empty buffer \<open>ensure(3000000000)\<close> finds no free space
  and \<open>grow\<close> allocates a block of 4500000000 bytes, as the claim says; the
  assignment \<open>size = new_size\<close> then narrows the number to 32 bits, and the member
  that is documented as the size of the allocated buffer holds 205032704, which is
  neither 4500000000 nor at least 3000000000.
\<close>

theorem ensure_records_narrowed_size:
  "remaining fresh_buf = Inr 0 \<and> fill fresh_buf = Inr 0
   \<and> (0 + 3000000000) * 3 div 2 = (4500000000 :: nat)
   \<and> map_sum id (\<lambda>s'. (base s', map_option bsize (blocks (mem s') 0), unat (size_u32 s')))
        (ensure 3000000000 fresh_buf) = Inr (Ptr 0 0, Some 4500000000, 205032704)"
  by (simp add: fresh_buf_def heap0_def ops_defs)

section \<open>The capacity never decreases\<close>

text \<open>
  Claim C8.  \<open>ensure\<close>, \<open>reserve\<close>, \<open>add\<close>, \<open>add_unchecked\<close>, \<open>set\<close>,
  \<open>clear\<close> and \<open>set_mark\<close> are never to lower the capacity.  A buffer built by
  \<open>DynamicBuffer(10)\<close> has a block of 10 bytes and the member \<open>size\<close> is 10.
  \<open>ensure(2863311531)\<close> makes \<open>grow\<close> allocate a block of 4294967296 bytes, so the
  allocation grew; the assignment \<open>size = new_size\<close> narrows that number to 32 bits
  and the member drops from 10 to 0.
\<close>

theorem ensure_lowers_recorded_size:
  "map_sum id (\<lambda>s. (base s, map_option bsize (blocks (mem s) 0), size_u32 s))
      (DynamicBuffer 10 True heap0) = Inr (Ptr 0 0, Some 10, 10)
   \<and> map_sum id (\<lambda>s'. (base s', map_option bsize (blocks (mem s') 1), size_u32 s'))
        (bind_res (DynamicBuffer 10 True heap0) (ensure 2863311531))
       = Inr (Ptr 1 0, Some 4294967296, 0)"
  by (simp add: heap0_def ops_defs)

section \<open>Appending\<close>

text \<open>
  Claim C2 says that after any sequence of \<open>add\<close> calls with non-null data
  \<open>fill()\<close> is the sum of the lengths and \<open>[base, ptr)\<close> holds the concatenation.
  Appending 3000000000 bytes to an empty buffer works and records the capacity
  205032704 for a block of 4500000000 bytes; a second append of 2000000000 bytes then
  sees no need to grow and copies past the end of the block.  And appending the six bytes
  of a full owning buffer to itself frees the region the data pointer refers to before
  the copy reads it.
\<close>

theorem adds_concat_counterexample:
  "map_sum id fill (adds [(Ptr 0 0, 3000000000)] huge_buf) = Inr (Inr 3000000000)
   \<and> adds [(Ptr 0 0, 3000000000), (Ptr 0 0, 2000000000)] huge_buf = Inl Undefined_Behaviour
   \<and> adds [(Ptr 1 0, 6)] marked_buf = Inl Undefined_Behaviour"
  by (simp add: huge_buf_def marked_buf_def ops_defs)

text \<open>
  Claim C2 as amended.  Start from a state that satisfies the invariant and run a
  sequence of \<open>add\<close> calls whose data pointers are non-null and point to arrays of
  the given lengths inside live blocks other than the buffer's own region.  If
  \<open>(fill() + sum of the lengths) * 3 / 2\<close>, rounded down, is below \<open>2^32\<close> and
  granted by the store, then the sequence returns, \<open>fill()\<close> afterwards is the old
  \<open>fill()\<close> plus the sum of the lengths, and the bytes in \<open>[base, ptr)\<close> are the old
  used bytes followed by the appended arrays in call order; for a buffer that starts
  empty that is the sum of the lengths and the concatenation of the arrays.
\<close>

theorem adds_concat:
  assumes "wf s" and "fill s = Inr f"
    and "list_all (src_ok (mem s) (block_of (base s))) xs"
    and "(unat f + sum_list (map (\<lambda>y. unat (snd y)) xs)) * 3 div 2 < 2 ^ 32"
    and "(unat f + sum_list (map (\<lambda>y. unat (snd y)) xs)) * 3 div 2 \<le> max_alloc (mem s)"
  shows "\<exists>s' f'. adds xs s = Inr s' \<and> fill s' = Inr f'
           \<and> unat f' = unat f + sum_list (map (\<lambda>y. unat (snd y)) xs)
           \<and> read_bytes (base s') (unat f') (mem s')
               = read_bytes (base s) (unat f) (mem s)
                 @ concat (map (\<lambda>x. read_bytes (fst x) (unat (snd x)) (mem s)) xs)"
  using assms
proof (induction xs arbitrary: s f)
  case Nil
  then show ?case by simp
next
  case (Cons x xs)
  let ?d = "fst x" and ?l = "snd x"
  have hd: "src_ok (mem s) (block_of (base s)) (?d, ?l)"
    and tl: "list_all (src_ok (mem s) (block_of (base s))) xs"
    using Cons.prems(3) by simp_all
  have mono: "(unat f + unat ?l) * 3 div 2 \<le> (unat f + sum_list (map (\<lambda>y. unat (snd y)) (x # xs))) * 3 div 2"
    by (rule div_le_mono) simp
  have h32: "(unat f + unat ?l) * 3 div 2 < 2 ^ 32"
    using mono Cons.prems(4) by (rule order_le_less_trans)
  have hal: "(unat f + unat ?l) * 3 div 2 \<le> max_alloc (mem s)"
    using mono Cons.prems(5) by (rule order_trans)
  from add_step[OF Cons.prems(1,2) hd h32 hal]
  obtain r s1 where a: "add ?d ?l s = Inr (r, s1)"
    and p: "wf s1" "fill s1 = Inr (f + ?l)" "unat (f + ?l) = unat f + unat ?l"
      "read_bytes (base s1) (unat f + unat ?l) (mem s1)
         = read_bytes (base s) (unat f) (mem s) @ read_bytes ?d (unat ?l) (mem s)"
      "max_alloc (mem s1) = max_alloc (mem s)"
      "next_id (mem s) \<le> next_id (mem s1)"
    and fr: "\<forall>b. b < next_id (mem s) \<and> block_of (base s) \<noteq> Some b
                  \<longrightarrow> blocks (mem s1) b = blocks (mem s) b"
    and bs: "block_of (base s1) = block_of (base s)
                \<or> block_of (base s1) = Some (next_id (mem s))"
    by blast
  have tl1: "list_all (src_ok (mem s1) (block_of (base s1))) xs"
    using tl src_ok_frame(1)[OF _ p(6) fr bs] by (simp add: list_all_iff)
  have same: "map (\<lambda>y. read_bytes (fst y) (unat (snd y)) (mem s1)) xs
               = map (\<lambda>y. read_bytes (fst y) (unat (snd y)) (mem s)) xs"
    using tl src_ok_frame(2)[OF _ p(6) fr bs] by (simp add: list_all_iff)
  have t: "unat (f + ?l) + sum_list (map (\<lambda>y. unat (snd y)) xs) = unat f + sum_list (map (\<lambda>y. unat (snd y)) (x # xs))"
    using p(3) by simp
  from Cons.IH[OF p(1,2) tl1] Cons.prems(4,5) t p(5)
  obtain s' f' where r: "adds xs s1 = Inr s'" "fill s' = Inr f'"
      "unat f' = unat (f + ?l) + sum_list (map (\<lambda>y. unat (snd y)) xs)"
      "read_bytes (base s') (unat f') (mem s')
         = read_bytes (base s1) (unat (f + ?l)) (mem s1)
           @ concat (map (\<lambda>y. read_bytes (fst y) (unat (snd y)) (mem s1)) xs)"
    by auto
  have "adds (x # xs) s = Inr s'"
    using a r(1) by simp
  moreover have "read_bytes (base s') (unat f') (mem s')
      = read_bytes (base s) (unat f) (mem s)
        @ concat (map (\<lambda>y. read_bytes (fst y) (unat (snd y)) (mem s)) (x # xs))"
    using r(4) p(3,4) same by simp
  ultimately show ?case
    using r(2,3) t by auto
qed


text \<open>Three and then four bytes of the array \<open>0, 1, \<dots>, 7\<close> appended to an empty
  buffer.\<close>

theorem adds_concat_witness:
  "wf fresh_data_buf \<and> fill fresh_data_buf = Inr 0
   \<and> list_all (src_ok (mem fresh_data_buf) (block_of (base fresh_data_buf)))
        [(Ptr 0 0, 3), (Ptr 0 2, 4)]
   \<and> (unat (0 :: size_t)
        + sum_list (map (\<lambda>y. unat (snd y)) [(Ptr 0 0, 3 :: size_t), (Ptr 0 2, 4)]))
        * 3 div 2 = 10
   \<and> map_sum id (\<lambda>s'. (fill s', read_bytes (base s') 7 (mem s')))
        (adds [(Ptr 0 0, 3), (Ptr 0 2, 4)] fresh_data_buf)
       = Inr (Inr 7, [Some 0, Some 1, Some 2, Some 2, Some 3, Some 4, Some 5])"
  using adds_concat [of fresh_data_buf 0 "[(Ptr 0 0, 3), (Ptr 0 2, 4)]"]
  by (simp add: fresh_data_buf_def heap_data_def wf_def src_ok_def read_bytes_def ops_defs
      upt_rec)

end
